theory Spec2Isabelle
  imports Complex_Main
begin

section \<open>The news screen: data model\<close>

text \<open>
  The screen component \<^verbatim>\<open>NewsScreen\<close> of \<^verbatim>\<open>src/app/(tabs)/index.tsx\<close> (the variant
  with bookmarks; \<^verbatim>\<open>src/unnamed/part_000\<close> is the same screen without them and has the
  same \<^verbatim>\<open>fetchNews\<close> and \<^verbatim>\<open>handleScroll\<close>), as pure functions on an explicit state.
\<close>

record NewsArticle =
  title :: string
  description :: string
  urlToImage :: string
  url :: string

text \<open>
  What the string held under the storage key \<^verbatim>\<open>'savedArticles'\<close> is, by what the source
  does with it: the empty string is falsy and never parsed, \<^verbatim>\<open>JSON.parse\<close> throws on a
  string that is not JSON, and returns the array for a string that \<^verbatim>\<open>JSON.stringify\<close>
  wrote. (A string that parses to something that is no array of articles has no
  \<^verbatim>\<open>NewsArticle[]\<close> value and is left out; the screen never writes one.)
\<close>

datatype stored_string = Empty_string | Not_json | Json_array "NewsArticle list"

datatype exn = SyntaxError | TypeError | StorageError | NetworkError

text \<open>Whether the promise of one platform call resolves or rejects.\<close>

datatype outcome = Resolves | Rejects

text \<open>
  What the network gives back to one \<^verbatim>\<open>fetch(url)\<close> followed by \<^verbatim>\<open>response.json()\<close>:
  the fetch rejects, the body is not JSON, the body is the JSON \<^verbatim>\<open>null\<close> (reading
  \<^verbatim>\<open>data.articles\<close> throws), or \<^verbatim>\<open>data\<close> is a value whose \<^verbatim>\<open>articles\<close> is absent
  (\<open>None\<close>) or an array.
\<close>

datatype response =
    Fetch_rejects
  | Json_rejects
  | Data_null
  | Data "NewsArticle list option"

subsection \<open>Numbers\<close>

text \<open>
  A JavaScript number is an IEEE 754 binary64 value: not-a-number, an infinity, or a
  finite double, given here by its exact value, a rational. (The two zeros are one value:
  they behave alike under \<^verbatim>\<open>+\<close>, \<^verbatim>\<open>-\<close> and \<^verbatim>\<open>>=\<close>, the operations the screen uses.)
\<close>

datatype double = NaN | PosInf | NegInf | Finite rat

text \<open>The number of binary digits of a positive integer, and the powers of two.\<close>

function bitlength :: "int \<Rightarrow> int" where
  "bitlength n = (if n \<le> 0 then 0 else bitlength (n div 2) + 1)"
  by pat_completeness auto
termination
  by (relation "measure nat") auto

declare bitlength.simps [simp del]

definition pow2 :: "int \<Rightarrow> rat" where
  "pow2 k = (if 0 \<le> k then 2 ^ nat k else 1 / 2 ^ nat (- k))"

text \<open>For \<open>x > 0\<close>, the exponent \<open>e\<close> with \<open>2^e \<le> x < 2^(e+1)\<close>.\<close>

definition floor_log2 :: "rat \<Rightarrow> int" where
  "floor_log2 x =
     (if 1 \<le> x then bitlength \<lfloor>x\<rfloor> - 1 else - bitlength (\<lceil>1 / x\<rceil> - 1))"

definition round_half_even :: "rat \<Rightarrow> int" where
  "round_half_even q =
     (let f = \<lfloor>q\<rfloor>; r = q - of_int f
      in if r < 1 / 2 then f else if 1 / 2 < r then f + 1 else if even f then f else f + 1)"

text \<open>
  The double that an exact result is rounded to (round to nearest, ties to even). Around
  \<open>x\<close> with \<open>2^e \<le> |x| < 2^(e+1)\<close> the doubles are the multiples of \<open>2^(e-52)\<close>, a
  significand of 53 bits; below \<open>2^(-1022)\<close> they are the multiples of \<open>2^(-1074)\<close>; a
  result that rounds to \<open>2^1024\<close> or beyond is an infinity.
\<close>

definition round_double :: "rat \<Rightarrow> double" where
  "round_double x =
     (if x = 0 then Finite 0
      else
        let e = max (floor_log2 \<bar>x\<bar>) (- 1022);
            u = pow2 (e - 52);
            y = of_int (round_half_even (x / u)) * u
        in if pow2 1024 \<le> \<bar>y\<bar> then (if 0 < x then PosInf else NegInf) else Finite y)"

text \<open>The operators \<^verbatim>\<open>+\<close>, unary and binary \<^verbatim>\<open>-\<close>, and \<^verbatim>\<open>>=\<close> on numbers.\<close>

fun js_add :: "double \<Rightarrow> double \<Rightarrow> double" where
  "js_add NaN b = NaN"
| "js_add a NaN = NaN"
| "js_add PosInf NegInf = NaN"
| "js_add NegInf PosInf = NaN"
| "js_add PosInf b = PosInf"
| "js_add a PosInf = PosInf"
| "js_add NegInf b = NegInf"
| "js_add a NegInf = NegInf"
| "js_add (Finite x) (Finite y) = round_double (x + y)"

fun js_neg :: "double \<Rightarrow> double" where
  "js_neg NaN = NaN"
| "js_neg PosInf = NegInf"
| "js_neg NegInf = PosInf"
| "js_neg (Finite x) = Finite (- x)"

definition js_sub :: "double \<Rightarrow> double \<Rightarrow> double" where
  "js_sub a b = js_add a (js_neg b)"

fun js_ge :: "double \<Rightarrow> double \<Rightarrow> bool" where
  "js_ge NaN b = False"
| "js_ge a NaN = False"
| "js_ge PosInf b = True"
| "js_ge a NegInf = True"
| "js_ge NegInf b = False"
| "js_ge a PosInf = False"
| "js_ge (Finite x) (Finite y) = (y \<le> x)"

subsection \<open>Events and state\<close>

text \<open>The three numbers \<^verbatim>\<open>handleScroll\<close> reads from \<^verbatim>\<open>event.nativeEvent\<close>.\<close>

record nativeEvent =
  layoutMeasurement_height :: double
  contentOffset_y :: double
  contentSize_height :: double

text \<open>
  The six \<^verbatim>\<open>useState\<close> cells of the component, and what the component acts on outside
  itself: the value under the storage key (\<open>None\<close>: \<^verbatim>\<open>getItem\<close> gives \<^verbatim>\<open>null\<close>), the
  page numbers of the requests issued by \<^verbatim>\<open>fetch\<close>, the strings handed to
  \<^verbatim>\<open>AsyncStorage.setItem\<close>, the messages of \<^verbatim>\<open>console.error\<close> and of \<^verbatim>\<open>alert\<close>.
\<close>

record screen =
  news :: "NewsArticle list"
  loading :: bool
  page :: double
  hasMore :: bool
  savedArticles :: "NewsArticle list"
  viewingSaved :: bool
  storage :: "stored_string option"
  requested :: "int list"
  written :: "stored_string list"
  console :: "string list"
  alerts :: "string list"

definition initial :: "stored_string option \<Rightarrow> screen" where
  "initial st =
     \<lparr>news = [], loading = False, page = Finite 1, hasMore = True, savedArticles = [],
      viewingSaved = False, storage = st, requested = [], written = [], console = [],
      alerts = []\<rparr>"

section \<open>The feed loader\<close>

text \<open>
  \<^verbatim>\<open>fetchNews\<close> up to its first \<^verbatim>\<open>await\<close>: the guard, \<^verbatim>\<open>setLoading(true)\<close> and the
  call of \<^verbatim>\<open>fetch\<close>. The handler reads \<^verbatim>\<open>loading\<close> and \<^verbatim>\<open>hasMore\<close> of the render it
  belongs to; the state passed here is that render's.
\<close>

definition fetchNews_call :: "int \<Rightarrow> screen \<Rightarrow> screen" where
  "fetchNews_call pageNumber s =
     (if loading s \<or> \<not> hasMore s then s
      else s\<lparr>loading := True, requested := requested s @ [pageNumber]\<rparr>)"

text \<open>
  \<^verbatim>\<open>fetchNews\<close> after its \<^verbatim>\<open>await\<close>s, on the state of that moment: the rest of the
  \<^verbatim>\<open>try\<close> block, the \<^verbatim>\<open>catch\<close> and the \<^verbatim>\<open>finally\<close>.
\<close>

definition fetchNews_try :: "response \<Rightarrow> screen \<Rightarrow> exn + screen" where
  "fetchNews_try r s =
     (case r of
        Fetch_rejects \<Rightarrow> Inl NetworkError
      | Json_rejects \<Rightarrow> Inl SyntaxError
      | Data_null \<Rightarrow> Inl TypeError
      | Data None \<Rightarrow> Inr (s\<lparr>hasMore := False\<rparr>)
      | Data (Some articles) \<Rightarrow>
          (if length articles > 0 then Inr (s\<lparr>news := news s @ articles\<rparr>)
           else Inr (s\<lparr>hasMore := False\<rparr>)))"

definition fetchNews_resume :: "response \<Rightarrow> screen \<Rightarrow> screen" where
  "fetchNews_resume r s =
     (let s' = (case fetchNews_try r s of
                  Inl e \<Rightarrow> s\<lparr>console := console s @ [''Error fetching news'']\<rparr>
                | Inr t \<Rightarrow> t)
      in s'\<lparr>loading := False\<rparr>)"

text \<open>One whole run of \<^verbatim>\<open>fetchNews(pageNumber)\<close>, the network answering \<open>r\<close>.\<close>

definition fetchNews :: "int \<Rightarrow> response \<Rightarrow> screen \<Rightarrow> screen" where
  "fetchNews pageNumber r s =
     (if loading s \<or> \<not> hasMore s then s
      else fetchNews_resume r (fetchNews_call pageNumber s))"

section \<open>The bookmark store\<close>

definition JSON_parse :: "stored_string \<Rightarrow> exn + NewsArticle list" where
  "JSON_parse t =
     (case t of Empty_string \<Rightarrow> Inl SyntaxError | Not_json \<Rightarrow> Inl SyntaxError
      | Json_array xs \<Rightarrow> Inr xs)"

definition JSON_stringify :: "NewsArticle list \<Rightarrow> stored_string" where
  "JSON_stringify xs = Json_array xs"

definition getItem :: "outcome \<Rightarrow> screen \<Rightarrow> exn + stored_string option" where
  "getItem rd s = (case rd of Rejects \<Rightarrow> Inl StorageError | Resolves \<Rightarrow> Inr (storage s))"

text \<open>The call is recorded when it is issued; the value is stored when it resolves.\<close>

definition setItem :: "outcome \<Rightarrow> stored_string \<Rightarrow> screen \<Rightarrow> exn option \<times> screen" where
  "setItem wr t s =
     (let s' = s\<lparr>written := written s @ [t]\<rparr>
      in case wr of Rejects \<Rightarrow> (Some StorageError, s')
         | Resolves \<Rightarrow> (None, s'\<lparr>storage := Some t\<rparr>))"

text \<open>The expression \<^verbatim>\<open>saved ? JSON.parse(saved) : []\<close>.\<close>

definition parse_saved :: "stored_string option \<Rightarrow> exn + NewsArticle list" where
  "parse_saved saved =
     (case saved of None \<Rightarrow> Inr [] | Some Empty_string \<Rightarrow> Inr [] | Some t \<Rightarrow> JSON_parse t)"

definition catch_save :: "screen \<Rightarrow> screen" where
  "catch_save s = s\<lparr>console := console s @ [''Error saving article'']\<rparr>"

text \<open>
  \<^verbatim>\<open>saveArticle\<close> run to its end, the read answering \<open>rd\<close> and the write \<open>wr\<close>,
  with no other handler running between its two \<^verbatim>\<open>await\<close>s (two overlapping saves
  are not modelled).
\<close>

definition saveArticle :: "outcome \<Rightarrow> outcome \<Rightarrow> NewsArticle \<Rightarrow> screen \<Rightarrow> screen" where
  "saveArticle rd wr article s =
     (case getItem rd s of
        Inl e \<Rightarrow> catch_save s
      | Inr saved \<Rightarrow>
          (case parse_saved saved of
             Inl e \<Rightarrow> catch_save s
           | Inr articlesArray \<Rightarrow>
               (case setItem wr (JSON_stringify (articlesArray @ [article])) s of
                  (Some e, s') \<Rightarrow> catch_save s'
                | (None, s') \<Rightarrow> s'\<lparr>alerts := alerts s' @ [''Saved!'']\<rparr>)))"

definition getSavedArticles :: "outcome \<Rightarrow> screen \<Rightarrow> screen" where
  "getSavedArticles rd s =
     (case getItem rd s of
        Inl e \<Rightarrow> s\<lparr>console := console s @ [''Error fetching saved articles'']\<rparr>
      | Inr saved \<Rightarrow>
          (case parse_saved saved of
             Inl e \<Rightarrow> s\<lparr>console := console s @ [''Error fetching saved articles'']\<rparr>
           | Inr articles \<Rightarrow> s\<lparr>savedArticles := articles\<rparr>))"

section \<open>The view controller\<close>

definition isCloseToBottom :: "nativeEvent \<Rightarrow> bool" where
  "isCloseToBottom e =
     js_ge (js_add (layoutMeasurement_height e) (contentOffset_y e))
       (js_sub (contentSize_height e) (Finite 20))"

definition handleScroll :: "nativeEvent \<Rightarrow> screen \<Rightarrow> screen" where
  "handleScroll e s =
     (if isCloseToBottom e \<and> hasMore s \<and> \<not> loading s
      then s\<lparr>page := js_add (page s) (Finite 1)\<rparr> else s)"

definition toggleView :: "outcome \<Rightarrow> screen \<Rightarrow> screen" where
  "toggleView rd s =
     (if viewingSaved s then s\<lparr>viewingSaved := False\<rparr>
      else (getSavedArticles rd s)\<lparr>viewingSaved := True\<rparr>)"

text \<open>The list the component maps over when it renders.\<close>

definition rendered :: "screen \<Rightarrow> NewsArticle list" where
  "rendered s = (if viewingSaved s then savedArticles s else news s)"

section \<open>Sessions\<close>

text \<open>
  What can happen to the screen: the page effect calls \<^verbatim>\<open>fetchNews\<close>, an outstanding
  fetch resumes with the network's answer, the list is scrolled, the view is toggled, an
  article is saved. A session is any sequence of these, which covers every order the
  runtime can produce.
\<close>

datatype event =
    Effect int
  | Resume response
  | Scroll nativeEvent
  | Toggle outcome
  | Save outcome outcome NewsArticle

fun step :: "screen \<Rightarrow> event \<Rightarrow> screen" where
  "step s (Effect pageNumber) = fetchNews_call pageNumber s"
| "step s (Resume r) = fetchNews_resume r s"
| "step s (Scroll e) = handleScroll e s"
| "step s (Toggle rd) = toggleView rd s"
| "step s (Save rd wr article) = saveArticle rd wr article s"

definition run :: "screen \<Rightarrow> event list \<Rightarrow> screen" where
  "run s evs = foldl step s evs"

text \<open>A sequence of whole fetches, each with its page number and the network's answer.\<close>

definition fetches :: "screen \<Rightarrow> (int \<times> response) list \<Rightarrow> screen" where
  "fetches s rs = foldl (\<lambda>t (n, r). fetchNews n r t) s rs"

section \<open>Sample data\<close>

definition article_a :: NewsArticle where
  "article_a = \<lparr>title = ''A'', description = ''first'', urlToImage = '''', url = ''https://a''\<rparr>"

definition article_b :: NewsArticle where
  "article_b = \<lparr>title = ''B'', description = ''second'', urlToImage = ''https://b.png'', url = ''https://b''\<rparr>"

definition scroll_at :: "rat \<Rightarrow> nativeEvent" where
  "scroll_at y =
     \<lparr>layoutMeasurement_height = Finite 800, contentOffset_y = Finite y,
      contentSize_height = Finite 1000\<rparr>"

text \<open>
  A scroll event with fractional numbers: viewport height 600, offset the double nearest
  to 0.7, content height the double nearest to 620.7.
\<close>

definition scroll_fraction :: nativeEvent where
  "scroll_fraction =
     \<lparr>layoutMeasurement_height = Finite 600,
      contentOffset_y = Finite (3152519739159347 / 4503599627370496),
      contentSize_height = Finite (2729867469442253 / 4398046511104)\<rparr>"

text \<open>
  A screen that has loaded one bookmark and gone back to the feed, after which the string
  under the key was replaced, from outside the screen, by one that is not JSON.
\<close>

definition stale_saved :: screen where
  "stale_saved =
     (run (initial (Some (Json_array [article_a]))) [Toggle Resolves, Toggle Resolves])
       \<lparr>storage := Some Not_json\<rparr>"

section \<open>Rounding to a double\<close>

lemma js_add_commute: "js_add a b = js_add b a"
  by (cases a; cases b) (simp_all add: add.commute)

lemma bitlength_nonpos: "n \<le> 0 \<Longrightarrow> bitlength n = 0"
  by (simp add: bitlength.simps)

lemma bitlength_step: "0 < n \<Longrightarrow> bitlength n = bitlength (n div 2) + 1"
  by (subst bitlength.simps) simp

lemma bitlength_bounds:
  "0 < n \<Longrightarrow> 0 < bitlength n \<and> 2 ^ nat (bitlength n - 1) \<le> n \<and> n < 2 ^ nat (bitlength n)"
proof (induction n rule: bitlength.induct)
  case (1 n)
  show ?case
  proof (cases "n = 1")
    case True
    then show ?thesis by (simp add: bitlength_step bitlength_nonpos)
  next
    case False
    with "1.prems" have h: "0 < n div 2" by simp
    define b where "b = bitlength (n div 2)"
    from "1.IH" [OF _ h] "1.prems" have ih: "0 < b" "2 ^ nat (b - 1) \<le> n div 2" "n div 2 < 2 ^ nat b"
      by (simp_all add: b_def)
    have bn: "bitlength n = b + 1"
      using "1.prems" by (simp add: bitlength_step b_def)
    have "nat b = Suc (nat (b - 1))" using ih(1) by arith
    then have p: "(2::int) ^ nat b = 2 * 2 ^ nat (b - 1)" by (simp only: power_Suc)
    have "nat (b + 1) = Suc (nat b)" using ih(1) by arith
    then have q: "(2::int) ^ nat (b + 1) = 2 * 2 ^ nat b" by (simp only: power_Suc)
    have lo: "2 ^ nat b \<le> n" using ih(2) p by linarith
    have hi: "n < 2 ^ nat (b + 1)" using ih(3) q by linarith
    show ?thesis using ih(1) lo hi by (simp add: bn)
  qed
qed

lemma round_half_even_of_int: "round_half_even (of_int m) = m"
  by (simp add: round_half_even_def)

lemma pow2_pos: "0 < pow2 k"
  by (simp add: pow2_def)

lemma round_double_exact:
  assumes "x \<noteq> 0" and u: "u = pow2 (max (floor_log2 \<bar>x\<bar>) (- 1022) - 52)"
    and xm: "x = of_int m * u" and lt: "\<bar>x\<bar> < pow2 1024"
  shows "round_double x = Finite x"
proof -
  have u0: "u \<noteq> 0" using pow2_pos [of "max (floor_log2 \<bar>x\<bar>) (- 1022) - 52"] u by simp
  have "x / u = of_int m * u / u" by (subst xm) (rule refl)
  also have "\<dots> = of_int m" using u0 by simp
  finally have d: "x / u = of_int m" .
  have y: "of_int (round_half_even (x / u)) * u = x"
    unfolding d round_half_even_of_int by (rule xm [symmetric])
  have "round_double x =
      (if pow2 1024 \<le> \<bar>of_int (round_half_even (x / u)) * u\<bar>
       then (if 0 < x then PosInf else NegInf)
       else Finite (of_int (round_half_even (x / u)) * u))"
    using assms(1) unfolding round_double_def Let_def u by simp
  also have "\<dots> = Finite x"
    unfolding y using lt by simp
  finally show ?thesis .
qed

lemma floor_log2_of_int: "1 \<le> k \<Longrightarrow> floor_log2 (of_int k) = bitlength k - 1"
  by (simp add: floor_log2_def)

lemma round_double_of_int:
  assumes "\<bar>k\<bar> \<le> 2 ^ 53"
  shows "round_double (of_int k) = Finite (of_int k)"
proof (cases "k = 0")
  case True
  then show ?thesis by (simp add: round_double_def)
next
  case False
  define a where "a = \<bar>k\<bar>"
  have a1: "1 \<le> a" "0 < a" using False by (simp_all add: a_def)
  define e where "e = bitlength a - 1"
  from bitlength_bounds [OF a1(2)] have b: "0 \<le> e" "2 ^ nat e \<le> a" "a < 2 ^ nat (e + 1)"
    by (simp_all add: e_def)
  have fl: "floor_log2 \<bar>of_int k\<bar> = e"
    using floor_log2_of_int [OF a1(1)] by (simp add: a_def e_def)
  have e53: "e \<le> 53"
  proof (rule ccontr)
    assume "\<not> e \<le> 53"
    then have "54 \<le> nat e" by simp
    then have "(2::int) ^ 54 \<le> 2 ^ nat e" by (rule power_increasing) simp
    with b(2) assms show False by (simp add: a_def)
  qed
  have mx: "max e (- 1022) = e" using b(1) by simp
  have ex: "\<exists>m. (of_int k :: rat) = of_int m * pow2 (e - 52)"
  proof (cases "e = 53")
    case True
    with b(2) assms have "a = 2 ^ 53" by (simp add: a_def)
    then have "k = 2 ^ 53 \<or> k = - (2 ^ 53)" by (auto simp add: a_def abs_if split: if_splits)
    then have "even k" by auto
    then obtain j where "k = 2 * j" by (auto elim: evenE)
    then have "(of_int k :: rat) = of_int j * pow2 (e - 52)"
      using True by (simp add: pow2_def)
    then show ?thesis ..
  next
    case False
    with e53 have le: "e \<le> 52" by simp
    have "pow2 (e - 52) = 1 / 2 ^ nat (52 - e)"
      using le by (cases "e = 52") (simp_all add: pow2_def)
    then have "(of_int k :: rat) = of_int (k * 2 ^ nat (52 - e)) * pow2 (e - 52)"
      by simp
    then show ?thesis ..
  qed
  then obtain m where m: "(of_int k :: rat) = of_int m * pow2 (e - 52)" ..
  have lt: "\<bar>of_int k :: rat\<bar> < pow2 1024"
  proof -
    have "\<bar>of_int k :: rat\<bar> = of_int a" by (simp add: a_def)
    also have "\<dots> \<le> of_int (2 ^ 53)" using assms unfolding a_def by (rule of_int_le_iff [THEN iffD2])
    also have "\<dots> < pow2 1024" by (simp add: pow2_def)
    finally show ?thesis .
  qed
  show ?thesis
  proof (rule round_double_exact [where m = m and u = "pow2 (e - 52)"])
    show "(of_int k :: rat) \<noteq> 0" using False by simp
    show "pow2 (e - 52) = pow2 (max (floor_log2 \<bar>of_int k\<bar>) (- 1022) - 52)"
      by (simp only: fl mx)
    show "(of_int k :: rat) = of_int m * pow2 (e - 52)" by (rule m)
    show "\<bar>of_int k :: rat\<bar> < pow2 1024" by (rule lt)
  qed
qed


lemma pow2_nonpos: "k \<le> 0 \<Longrightarrow> pow2 k = 1 / 2 ^ nat (- k)"
  by (cases "k = 0") (simp_all add: pow2_def)

lemma floor_log2_bounds:
  assumes "0 < x"
  shows "pow2 (floor_log2 x) \<le> x \<and> x < pow2 (floor_log2 x + 1)"
proof (cases "1 \<le> x")
  case True
  define k where "k = \<lfloor>x\<rfloor>"
  have k1: "0 < k" using True by (simp add: k_def)
  define e where "e = bitlength k - 1"
  from bitlength_bounds [OF k1] have b: "0 \<le> e" "2 ^ nat e \<le> k" "k < 2 ^ nat (e + 1)"
    by (simp_all add: e_def)
  have fl: "floor_log2 x = e" using True by (simp add: floor_log2_def k_def e_def)
  have "(of_int (2 ^ nat e) :: rat) \<le> of_int k" using b(2) by (simp only: of_int_le_iff)
  also have "\<dots> \<le> x" by (simp add: k_def)
  finally have lo: "pow2 e \<le> x" using b(1) by (simp add: pow2_def)
  have "k + 1 \<le> 2 ^ nat (e + 1)" using b(3) by simp
  then have "(of_int (k + 1) :: rat) \<le> of_int (2 ^ nat (e + 1))" by (simp only: of_int_le_iff)
  moreover have "x < of_int (k + 1)" unfolding k_def by simp linarith
  ultimately have hi: "x < pow2 (e + 1)" using b(1) by (simp add: pow2_def)
  show ?thesis using lo hi by (simp add: fl)
next
  case False
  define y where "y = 1 / x"
  have x1: "x < 1" using False by simp
  have y0: "0 < y" and y1: "1 < y" using assms x1 by (simp_all add: y_def)
  have xy: "x = 1 / y" by (simp add: y_def)
  define n where "n = \<lceil>y\<rceil> - 1"
  have n1: "0 < n" using y1 by (simp add: n_def less_ceiling_iff)
  define b where "b = bitlength n"
  from bitlength_bounds [OF n1] have bb: "0 < b" "2 ^ nat (b - 1) \<le> n" "n < 2 ^ nat b"
    by (simp_all add: b_def)
  have fl: "floor_log2 x = - b" using False by (simp add: floor_log2_def n_def b_def y_def)
  have "n + 1 \<le> 2 ^ nat b" using bb(3) by simp
  then have "(of_int (n + 1) :: rat) \<le> of_int (2 ^ nat b)" by (simp only: of_int_le_iff)
  moreover have "y \<le> of_int (n + 1)" by (simp add: n_def)
  ultimately have yb: "y \<le> 2 ^ nat b" by simp
  have "(of_int (2 ^ nat (b - 1)) :: rat) \<le> of_int n" using bb(2) by (simp only: of_int_le_iff)
  then have "(2::rat) ^ nat (b - 1) \<le> of_int n" by simp
  moreover have "of_int n < y" by (simp add: n_def) linarith
  ultimately have by': "2 ^ nat (b - 1) < y" by (rule le_less_trans)
  have lo: "pow2 (- b) \<le> x"
    unfolding xy using bb(1) y0 yb by (simp add: pow2_nonpos frac_le)
  have "1 / y < 1 / 2 ^ nat (b - 1)"
    using by' by (simp add: frac_less2)
  then have hi: "x < pow2 (- b + 1)"
    unfolding xy using bb(1) by (simp add: pow2_nonpos)
  show ?thesis using lo hi by (simp add: fl)
qed

lemma round_half_even_near: "\<bar>of_int (round_half_even q) - q\<bar> \<le> 1 / 2"
proof -
  define f where "f = \<lfloor>q\<rfloor>"
  have a: "of_int f \<le> q" "q < of_int f + 1" unfolding f_def by linarith+
  have "round_half_even q = f \<and> q - of_int f \<le> 1 / 2
      \<or> round_half_even q = f + 1 \<and> 1 / 2 \<le> q - of_int f"
    unfolding round_half_even_def Let_def f_def by auto
  then show ?thesis
  proof (elim disjE conjE)
    assume h: "round_half_even q = f" "q - of_int f \<le> 1 / 2"
    have "\<bar>of_int f - q\<bar> \<le> 1 / 2" using a h(2) by linarith
    then show ?thesis by (simp only: h(1))
  next
    assume h: "round_half_even q = f + 1" "1 / 2 \<le> q - of_int f"
    have "\<bar>(of_int f + 1) - q\<bar> \<le> 1 / 2" using a h(2) by linarith
    then show ?thesis by (simp add: h(1))
  qed
qed

lemma round_double_near:
  assumes "x \<noteq> 0" and "round_double x = Finite y"
  shows "\<bar>y - x\<bar> \<le> pow2 (max (floor_log2 \<bar>x\<bar>) (- 1022) - 52) / 2"
proof -
  define u where "u = pow2 (max (floor_log2 \<bar>x\<bar>) (- 1022) - 52)"
  have u0: "0 < u" unfolding u_def by (rule pow2_pos)
  define m where "m = round_half_even (x / u)"
  have rd: "round_double x =
      (if pow2 1024 \<le> \<bar>of_int m * u\<bar> then (if 0 < x then PosInf else NegInf)
       else Finite (of_int m * u))"
    using assms(1) unfolding round_double_def Let_def u_def m_def by simp
  have y: "y = of_int m * u"
  proof (cases "pow2 1024 \<le> \<bar>of_int m * u\<bar>")
    case True
    with rd assms(2) show ?thesis by (cases "0 < x") simp_all
  next
    case False
    with rd assms(2) show ?thesis by simp
  qed
  have "\<bar>of_int m - x / u\<bar> \<le> 1 / 2" unfolding m_def by (rule round_half_even_near)
  then have "\<bar>of_int m - x / u\<bar> * u \<le> 1 / 2 * u"
    using u0 by (simp only: mult_le_cancel_right_pos)
  moreover have "\<bar>of_int m - x / u\<bar> * u = \<bar>of_int m * u - x\<bar>"
  proof -
    have e1: "(of_int m - x / u) * u = of_int m * u - x"
      using u0 by (simp add: left_diff_distrib)
    have "\<bar>of_int m - x / u\<bar> * u = \<bar>of_int m - x / u\<bar> * \<bar>u\<bar>"
      using u0 by simp
    also have "\<dots> = \<bar>(of_int m - x / u) * u\<bar>" by (rule abs_mult [symmetric])
    finally show ?thesis by (simp only: e1)
  qed
  ultimately have "\<bar>of_int m * u - x\<bar> \<le> u / 2" by simp
  then show ?thesis unfolding y u_def .
qed

section \<open>The scroll handler\<close>

lemma js_add_of_int:
  "\<bar>a + b\<bar> \<le> 2 ^ 53 \<Longrightarrow>
   js_add (Finite (of_int a)) (Finite (of_int b)) = Finite (of_int (a + b))"
  using round_double_of_int [of "a + b"] by simp

lemma js_sub_of_int:
  "\<bar>a - b\<bar> \<le> 2 ^ 53 \<Longrightarrow>
   js_sub (Finite (of_int a)) (Finite (of_int b)) = Finite (of_int (a - b))"
  using round_double_of_int [of "a - b"] by (simp add: js_sub_def)

lemma isCloseToBottom_of_int:
  assumes "layoutMeasurement_height e = Finite (of_int h)"
    and "contentOffset_y e = Finite (of_int y)"
    and "contentSize_height e = Finite (of_int c)"
    and "\<bar>y + h\<bar> \<le> 2 ^ 53" and "\<bar>c - 20\<bar> \<le> 2 ^ 53"
  shows "isCloseToBottom e \<longleftrightarrow> c - 20 \<le> y + h"
proof -
  have a: "js_add (Finite (of_int h)) (Finite (of_int y)) = Finite (of_int (h + y))"
    using assms(4) by (intro js_add_of_int) (simp add: add.commute)
  have "js_sub (Finite (of_int c)) (Finite (of_int 20)) = Finite (of_int (c - 20))"
    using assms(5) by (rule js_sub_of_int)
  then have b: "js_sub (Finite (of_int c)) (Finite 20) = Finite (of_int (c - 20))"
    by simp
  have "isCloseToBottom e \<longleftrightarrow> (of_int (c - 20) :: rat) \<le> of_int (h + y)"
    unfolding isCloseToBottom_def assms(1,2,3) a b by simp
  also have "\<dots> \<longleftrightarrow> c - 20 \<le> y + h"
    by (simp only: of_int_le_iff add.commute)
  finally show ?thesis .
qed

lemma isCloseToBottom_scroll_at:
  "\<bar>y + 800\<bar> \<le> 2 ^ 53 \<Longrightarrow> isCloseToBottom (scroll_at (of_int y)) \<longleftrightarrow> 180 \<le> y"
  using isCloseToBottom_of_int [of "scroll_at (of_int y)" 800 y 1000]
  by (simp add: scroll_at_def)

text \<open>
  With fractional numbers the rounding shows: 600 + 0.7 and 620.7 - 20 round to the same
  double, so the handler sees the bottom, while the exact sum of the three doubles is
  below the exact difference.
\<close>

lemma isCloseToBottom_scroll_fraction:
  "isCloseToBottom scroll_fraction
   \<and> \<not> (2729867469442253 / 4398046511104 - 20 \<le> (600 :: rat) + 3152519739159347 / 4503599627370496)"
  by code_simp

text \<open>
  C7. The near-bottom predicate of the scroll handler is
  offset + viewport height >= content height - 20, the sum, the difference and the
  comparison being those of JavaScript numbers (each result rounded to the nearest
  double); for whole numbers up to \<open>2^53\<close> that is the inequality of the integers. With
  viewport height 800 and content height 1000 it holds at offset 180 and fails at offset
  179. The handler advances the page by one exactly when the predicate holds, has-more is
  true and loading is false, and changes nothing otherwise.
\<close>

theorem C7_handleScroll:
  "(isCloseToBottom e \<longleftrightarrow>
      js_ge (js_add (contentOffset_y e) (layoutMeasurement_height e))
        (js_sub (contentSize_height e) (Finite 20)))
   \<and> (layoutMeasurement_height e = Finite (of_int h) \<and> contentOffset_y e = Finite (of_int y)
        \<and> contentSize_height e = Finite (of_int c) \<and> \<bar>y + h\<bar> \<le> 2 ^ 53 \<and> \<bar>c - 20\<bar> \<le> 2 ^ 53
        \<longrightarrow> (isCloseToBottom e \<longleftrightarrow> c - 20 \<le> y + h))
   \<and> isCloseToBottom (scroll_at 180) \<and> \<not> isCloseToBottom (scroll_at 179)
   \<and> handleScroll e s
       = (if isCloseToBottom e \<and> hasMore s \<and> \<not> loading s
          then s\<lparr>page := js_add (page s) (Finite 1)\<rparr> else s)
   \<and> (page s = Finite (of_int n) \<and> \<bar>n + 1\<bar> \<le> 2 ^ 53
        \<longrightarrow> (page (handleScroll e s) = Finite (of_int (n + 1))
              \<longleftrightarrow> isCloseToBottom e \<and> hasMore s \<and> \<not> loading s))"
proof -
  have c1: "isCloseToBottom e \<longleftrightarrow>
      js_ge (js_add (contentOffset_y e) (layoutMeasurement_height e))
        (js_sub (contentSize_height e) (Finite 20))"
    unfolding isCloseToBottom_def by (simp only: js_add_commute)
  have c3: "isCloseToBottom (scroll_at 180)"
    using isCloseToBottom_scroll_at [of 180] by simp
  have c4: "\<not> isCloseToBottom (scroll_at 179)"
    using isCloseToBottom_scroll_at [of 179] by simp
  have c5: "handleScroll e s
       = (if isCloseToBottom e \<and> hasMore s \<and> \<not> loading s
          then s\<lparr>page := js_add (page s) (Finite 1)\<rparr> else s)"
    by (rule handleScroll_def)
  have c6: "page (handleScroll e s) = Finite (of_int (n + 1))
      \<longleftrightarrow> isCloseToBottom e \<and> hasMore s \<and> \<not> loading s"
    if p: "page s = Finite (of_int n)" and n: "\<bar>n + 1\<bar> \<le> 2 ^ 53"
  proof -
    have "js_add (Finite (of_int n)) (Finite (of_int 1)) = Finite (of_int (n + 1))"
      using n by (rule js_add_of_int)
    then have "js_add (page s) (Finite 1) = Finite (of_int (n + 1))"
      by (simp add: p)
    then show ?thesis by (simp add: c5 p)
  qed
  show ?thesis
    using c1 c3 c4 c5 c6 isCloseToBottom_of_int [of e h y c] by blast
qed

theorem C7_handleScroll_witness:
  "page (handleScroll (scroll_at 180) (initial None)) = Finite 2
   \<and> page (handleScroll (scroll_at 179) (initial None)) = Finite 1
   \<and> page (handleScroll (scroll_at 180) ((initial None)\<lparr>loading := True\<rparr>)) = Finite 1
   \<and> page (handleScroll (scroll_at 180) ((initial None)\<lparr>hasMore := False\<rparr>)) = Finite 1"
proof -
  note t1 = C7_handleScroll [of "scroll_at 180" 800 180 1000 "initial None" 1]
  note t2 = C7_handleScroll [of "scroll_at 179" 800 179 1000 "initial None" 1]
  note t3 = C7_handleScroll [of "scroll_at 180" 800 180 1000 "(initial None)\<lparr>loading := True\<rparr>" 1]
  note t4 = C7_handleScroll [of "scroll_at 180" 800 180 1000 "(initial None)\<lparr>hasMore := False\<rparr>" 1]
  have n: "isCloseToBottom (scroll_at 180)" "\<not> isCloseToBottom (scroll_at 179)"
    using t1 by blast+
  have w1: "page (handleScroll (scroll_at 180) (initial None)) = Finite 2"
    using t1 [THEN conjunct2, THEN conjunct2, THEN conjunct2, THEN conjunct2, THEN conjunct2] n(1)
    by (simp add: initial_def)
  have w2: "page (handleScroll (scroll_at 179) (initial None)) = Finite 1"
    using t2 [THEN conjunct2, THEN conjunct2, THEN conjunct2, THEN conjunct2, THEN conjunct1] n(2)
    by (simp add: initial_def)
  have w3: "page (handleScroll (scroll_at 180) ((initial None)\<lparr>loading := True\<rparr>)) = Finite 1"
    using t3 [THEN conjunct2, THEN conjunct2, THEN conjunct2, THEN conjunct2, THEN conjunct1]
    by (simp add: initial_def)
  have w4: "page (handleScroll (scroll_at 180) ((initial None)\<lparr>hasMore := False\<rparr>)) = Finite 1"
    using t4 [THEN conjunct2, THEN conjunct2, THEN conjunct2, THEN conjunct2, THEN conjunct1]
    by (simp add: initial_def)
  show ?thesis using w1 w2 w3 w4 by (simp only: simp_thms)
qed

section \<open>The feed loader: guard, loading flag, failures\<close>

lemma loading_fetchNews_resume: "\<not> loading (fetchNews_resume r t)"
  by (simp add: fetchNews_resume_def Let_def split: sum.splits)

lemma fetchNews_resume_failure:
  "r = Fetch_rejects \<or> r = Json_rejects \<or> r = Data_null \<Longrightarrow>
   fetchNews_resume r t = t\<lparr>console := console t @ [''Error fetching news''], loading := False\<rparr>"
  by (auto simp add: fetchNews_resume_def fetchNews_try_def)

text \<open>
  C3. For every page number, a call of the fetch while loading is true, or while has-more
  is false, does nothing: the state is the same and no request is issued.
\<close>

theorem C3_fetchNews_guard:
  "loading s \<or> \<not> hasMore s \<Longrightarrow>
   fetchNews_call n s = s \<and> fetchNews n r s = s
   \<and> requested (fetchNews_call n s) = requested s \<and> requested (fetchNews n r s) = requested s"
  by (simp add: fetchNews_call_def fetchNews_def)

theorem C3_fetchNews_guard_witness:
  "fetchNews_call 2 ((initial None)\<lparr>loading := True\<rparr>) = (initial None)\<lparr>loading := True\<rparr>
   \<and> fetchNews 7 (Data (Some [article_a])) ((initial None)\<lparr>hasMore := False\<rparr>)
       = (initial None)\<lparr>hasMore := False\<rparr>"
  using C3_fetchNews_guard [of "(initial None)\<lparr>loading := True\<rparr>" 2 Fetch_rejects]
    C3_fetchNews_guard [of "(initial None)\<lparr>hasMore := False\<rparr>" 7 "Data (Some [article_a])"]
  by (simp add: initial_def)

text \<open>
  C5. A call of the fetch that passes the guard sets loading to true, and whatever the
  network answers (articles, an empty or absent list, a failure) the call ends with
  loading false; the part after the await ends so from any state.
\<close>

theorem C5_loading_released:
  "\<not> loading s \<Longrightarrow> hasMore s \<Longrightarrow>
   loading (fetchNews_call n s) \<and> \<not> loading (fetchNews n r s)
   \<and> \<not> loading (fetchNews_resume r t)"
  by (simp add: fetchNews_call_def fetchNews_def loading_fetchNews_resume)

theorem C5_loading_released_witness:
  "loading (fetchNews_call 1 (initial None))
   \<and> \<not> loading (fetchNews 1 (Data (Some [article_a])) (initial None))
   \<and> \<not> loading (fetchNews 1 (Data None) (initial None))
   \<and> \<not> loading (fetchNews 1 Fetch_rejects (initial None))
   \<and> \<not> loading (fetchNews 1 Json_rejects (initial None))"
  using C5_loading_released [of "initial None" 1 "Data (Some [article_a])"]
    C5_loading_released [of "initial None" 1 "Data None"]
    C5_loading_released [of "initial None" 1 Fetch_rejects]
    C5_loading_released [of "initial None" 1 Json_rejects]
  by (simp add: initial_def)

text \<open>
  C9. When the fetch or the parsing of its answer fails, the part after the await logs
  the error and releases loading, and changes nothing else; a whole call that passed the
  guard leaves the article list, has-more, the page and loading as they were before it.
\<close>

theorem C9_fetch_failure:
  "r = Fetch_rejects \<or> r = Json_rejects \<or> r = Data_null \<Longrightarrow>
   fetchNews_resume r t = t\<lparr>console := console t @ [''Error fetching news''], loading := False\<rparr>
   \<and> (\<not> loading s \<and> hasMore s \<longrightarrow>
        fetchNews n r s = s\<lparr>requested := requested s @ [n],
                            console := console s @ [''Error fetching news'']\<rparr>
        \<and> news (fetchNews n r s) = news s \<and> hasMore (fetchNews n r s) = hasMore s
        \<and> page (fetchNews n r s) = page s \<and> loading (fetchNews n r s) = loading s)"
  by (auto simp add: fetchNews_resume_failure fetchNews_def fetchNews_call_def)

theorem C9_fetch_failure_witness:
  "fetchNews 3 Fetch_rejects ((initial None)\<lparr>news := [article_a], page := Finite 3\<rparr>)
     = (initial None)\<lparr>news := [article_a], page := Finite 3, requested := [3],
                       console := [''Error fetching news'']\<rparr>
   \<and> news (fetchNews 3 Json_rejects ((initial None)\<lparr>news := [article_a], page := Finite 3\<rparr>)) = [article_a]"
  using C9_fetch_failure [of Fetch_rejects "initial None" "(initial None)\<lparr>news := [article_a], page := Finite 3\<rparr>" 3]
    C9_fetch_failure [of Json_rejects "initial None" "(initial None)\<lparr>news := [article_a], page := Finite 3\<rparr>" 3]
  by (simp add: initial_def)

section \<open>The feed loader: accumulation\<close>

lemma fetchNews_page:
  "\<not> loading s \<Longrightarrow> hasMore s \<Longrightarrow> articles \<noteq> [] \<Longrightarrow>
   fetchNews n (Data (Some articles)) s
     = s\<lparr>requested := requested s @ [n], news := news s @ articles\<rparr>"
  by (simp add: fetchNews_def fetchNews_call_def fetchNews_resume_def fetchNews_try_def)

lemma fetches_Nil: "fetches s [] = s"
  by (simp add: fetches_def)

lemma fetches_Cons: "fetches s ((n, r) # rs) = fetches (fetchNews n r s) rs"
  by (simp add: fetches_def)

lemma fetches_pages:
  "\<not> loading s \<Longrightarrow> hasMore s \<Longrightarrow> \<forall>p \<in> set pages. snd p \<noteq> [] \<Longrightarrow>
   fetches s (map (\<lambda>(n, articles). (n, Data (Some articles))) pages)
     = s\<lparr>requested := requested s @ map fst pages, news := news s @ concat (map snd pages)\<rparr>"
proof (induction pages arbitrary: s)
  case Nil
  then show ?case by (simp add: fetches_Nil)
next
  case (Cons p pages)
  obtain n articles where p: "p = (n, articles)" by (cases p)
  from Cons.prems p have ne: "articles \<noteq> []" by simp
  let ?t = "s\<lparr>requested := requested s @ [n], news := news s @ articles\<rparr>"
  have one: "fetchNews n (Data (Some articles)) s = ?t"
    using Cons.prems(1,2) ne by (rule fetchNews_page)
  have "fetches ?t (map (\<lambda>(n, articles). (n, Data (Some articles))) pages)
          = ?t\<lparr>requested := requested ?t @ map fst pages,
                news := news ?t @ concat (map snd pages)\<rparr>"
    using Cons.prems by (intro Cons.IH) simp_all
  then show ?case
    by (simp add: p fetches_Cons one)
qed

text \<open>
  C1. After any sequence of fetches that each succeed with a non-empty article list,
  run from a screen that is not loading and has more, the feed is the feed before
  followed by the returned pages in the order they arrived, nothing reordered and no
  duplicate removed; its length grows by the sum of the page lengths, and one request
  per page was issued.
\<close>

theorem C1_feed_is_concatenation:
  "\<not> loading s \<Longrightarrow> hasMore s \<Longrightarrow> \<forall>p \<in> set pages. snd p \<noteq> [] \<Longrightarrow>
   news (fetches s (map (\<lambda>(n, articles). (n, Data (Some articles))) pages))
     = news s @ concat (map snd pages)
   \<and> length (news (fetches s (map (\<lambda>(n, articles). (n, Data (Some articles))) pages)))
     = length (news s) + sum_list (map (length \<circ> snd) pages)
   \<and> requested (fetches s (map (\<lambda>(n, articles). (n, Data (Some articles))) pages))
     = requested s @ map fst pages"
  by (simp add: fetches_pages length_concat comp_def)

theorem C1_feed_is_concatenation_witness:
  "news (fetches (initial None)
      [(1, Data (Some [article_b, article_a])), (2, Data (Some [article_a]))])
     = [article_b, article_a, article_a]"
  using C1_feed_is_concatenation
    [of "initial None" "[(1, [article_b, article_a]), (2, [article_a])]"]
  by (simp add: initial_def)

section \<open>The feed loader: end of pagination\<close>

lemma step_hasMore_False:
  "\<not> hasMore s \<Longrightarrow> \<not> hasMore (step s ev) \<and> requested (step s ev) = requested s"
  by (cases ev)
    (simp_all add: fetchNews_call_def fetchNews_resume_def fetchNews_try_def handleScroll_def
      toggleView_def getSavedArticles_def saveArticle_def catch_save_def setItem_def getItem_def
      Let_def split: sum.splits response.splits option.splits outcome.splits prod.splits)

lemma run_hasMore_False:
  "\<not> hasMore s \<Longrightarrow> \<not> hasMore (run s evs) \<and> requested (run s evs) = requested s"
proof (induction evs arbitrary: s)
  case Nil
  then show ?case by (simp add: run_def)
next
  case (Cons ev evs)
  from Cons.prems have a: "\<not> hasMore (step s ev)" and b: "requested (step s ev) = requested s"
    using step_hasMore_False by blast+
  from Cons.IH [OF a] b show ?case by (simp add: run_def)
qed

lemma hasMore_resume_empty:
  "r = Data None \<or> r = Data (Some []) \<Longrightarrow> \<not> hasMore (fetchNews_resume r s)"
  by (auto simp add: fetchNews_resume_def fetchNews_try_def)

text \<open>
  C2. When a fetch completes with an empty or absent article list, has-more is false
  afterwards, and it is false in every state the session reaches from there; no request
  is issued any more.
\<close>

theorem C2_hasMore_stays_false:
  "r = Data None \<or> r = Data (Some []) \<Longrightarrow>
   \<not> hasMore (fetchNews_resume r s)
   \<and> \<not> hasMore (run (fetchNews_resume r s) evs)
   \<and> requested (run (fetchNews_resume r s) evs) = requested (fetchNews_resume r s)"
  using hasMore_resume_empty [of r s] run_hasMore_False [of "fetchNews_resume r s" evs]
  by blast

theorem C2_hasMore_stays_false_witness:
  "requested (run (initial None)
     [Effect 1, Resume (Data (Some [])), Scroll (scroll_at 180), Effect 2,
      Resume (Data (Some [article_a])), Effect 3]) = [1]
   \<and> hasMore (run (initial None)
     [Effect 1, Resume (Data (Some [])), Scroll (scroll_at 180), Effect 2,
      Resume (Data (Some [article_a])), Effect 3]) = False"
  using C2_hasMore_stays_false [of "Data (Some [])" "fetchNews_call 1 (initial None)"
      "[Scroll (scroll_at 180), Effect 2, Resume (Data (Some [article_a])), Effect 3]"]
  by (simp add: run_def initial_def fetchNews_call_def fetchNews_resume_def fetchNews_try_def)

section \<open>The bookmark store\<close>

lemma getSavedArticles_ok:
  "parse_saved (storage s) = Inr xs \<Longrightarrow> getSavedArticles Resolves s = s\<lparr>savedArticles := xs\<rparr>"
  by (simp add: getSavedArticles_def getItem_def)

lemma getSavedArticles_failure:
  "rd = Rejects \<or> parse_saved (storage s) = Inl e \<Longrightarrow>
   getSavedArticles rd s = s\<lparr>console := console s @ [''Error fetching saved articles'']\<rparr>"
  by (auto simp add: getSavedArticles_def getItem_def split: outcome.splits)

lemma saveArticle_ok:
  "parse_saved (storage s) = Inr xs \<Longrightarrow>
   saveArticle Resolves Resolves a s
     = s\<lparr>written := written s @ [Json_array (xs @ [a])],
          storage := Some (Json_array (xs @ [a])),
          alerts := alerts s @ [''Saved!'']\<rparr>"
  by (simp add: saveArticle_def getItem_def setItem_def JSON_stringify_def)

lemma parse_saved_Json_array: "parse_saved (Some (Json_array xs)) = Inr xs"
  by (simp add: parse_saved_def JSON_parse_def)

text \<open>
  In a session in which the screen alone writes the key, a stored string that does not
  deserialize was there from the start, so no load has filled the saved list yet.
\<close>

lemma step_unparsable_store:
  "(\<forall>e. parse_saved (storage s) = Inl e \<longrightarrow> savedArticles s = []) \<Longrightarrow>
   parse_saved (storage (step s ev)) = Inl e \<Longrightarrow> savedArticles (step s ev) = []"
  by (cases ev)
    (auto simp add: fetchNews_call_def fetchNews_resume_def fetchNews_try_def handleScroll_def
      toggleView_def getSavedArticles_def saveArticle_def catch_save_def setItem_def getItem_def
      parse_saved_def JSON_parse_def JSON_stringify_def Let_def
      split: sum.splits response.splits option.splits outcome.splits prod.splits if_splits
        stored_string.splits)

lemma run_unparsable_store:
  "(\<forall>e. parse_saved (storage s) = Inl e \<longrightarrow> savedArticles s = []) \<Longrightarrow>
   parse_saved (storage (run s evs)) = Inl e \<Longrightarrow> savedArticles (run s evs) = []"
proof (induction evs arbitrary: s e)
  case Nil
  then show ?case by (simp add: run_def)
next
  case (Cons ev evs)
  have "\<forall>e. parse_saved (storage (step s ev)) = Inl e \<longrightarrow> savedArticles (step s ev) = []"
    using step_unparsable_store [OF Cons.prems(1)] by blast
  from Cons.IH [OF this] Cons.prems(2) show ?case by (simp add: run_def)
qed

lemma session_unparsable_store:
  "parse_saved (storage (run (initial st) evs)) = Inl e \<Longrightarrow>
   savedArticles (run (initial st) evs) = []"
  by (rule run_unparsable_store) (simp_all add: initial_def)

text \<open>
  C4 (as amended). Loading the bookmarks gives the empty list when nothing is stored
  under the key. When deserializing the stored string fails, it logs and leaves the
  saved list as it was before the call, and changes nothing else; so the list is empty
  after the call when it was empty before, as it is until a load has filled it.
\<close>

theorem C4_getSavedArticles:
  "(storage s = None \<longrightarrow> savedArticles (getSavedArticles Resolves s) = [])
   \<and> (parse_saved (storage s) = Inl e \<longrightarrow>
        getSavedArticles Resolves s
          = s\<lparr>console := console s @ [''Error fetching saved articles'']\<rparr>
        \<and> savedArticles (getSavedArticles Resolves s) = savedArticles s
        \<and> (savedArticles s = [] \<longrightarrow> savedArticles (getSavedArticles Resolves s) = []))"
  by (auto simp add: getSavedArticles_def getItem_def parse_saved_def)

theorem C4_getSavedArticles_witness:
  "savedArticles (getSavedArticles Resolves ((initial None)\<lparr>savedArticles := [article_b]\<rparr>)) = []
   \<and> getSavedArticles Resolves (initial (Some Not_json))
       = (initial (Some Not_json))\<lparr>console := [''Error fetching saved articles'']\<rparr>
   \<and> savedArticles (getSavedArticles Resolves (initial (Some Not_json))) = []"
  using C4_getSavedArticles [of "(initial None)\<lparr>savedArticles := [article_b]\<rparr>" SyntaxError]
    C4_getSavedArticles [of "initial (Some Not_json)" SyntaxError]
  by (simp add: initial_def parse_saved_def JSON_parse_def)

text \<open>
  That a failing deserialization always gives the empty list is false: where an earlier
  load has filled the list, the list stays as it was.
\<close>

theorem C4_counterexample:
  "parse_saved (storage stale_saved) = Inl SyntaxError
   \<and> savedArticles (getSavedArticles Resolves stale_saved) = [article_a]
   \<and> savedArticles (getSavedArticles Resolves stale_saved) \<noteq> []"
  by (simp add: stale_saved_def run_def initial_def toggleView_def getSavedArticles_def
      getItem_def parse_saved_def JSON_parse_def)

text \<open>
  C6. For every article and every stored bookmark list (nothing stored, the empty
  string, or a serialized list \<open>xs\<close>), saving the article and then loading the bookmarks
  gives \<open>xs\<close> followed by the article, so the article is last; saving it twice gives two
  more copies of it than \<open>xs\<close> had. The reads and the writes resolve.
\<close>

theorem C6_save_then_load:
  "parse_saved (storage s) = Inr xs \<Longrightarrow>
   savedArticles (getSavedArticles Resolves (saveArticle Resolves Resolves a s)) = xs @ [a]
   \<and> last (savedArticles (getSavedArticles Resolves (saveArticle Resolves Resolves a s))) = a
   \<and> savedArticles (getSavedArticles Resolves
        (saveArticle Resolves Resolves a (saveArticle Resolves Resolves a s))) = xs @ [a, a]
   \<and> count_list (savedArticles (getSavedArticles Resolves
        (saveArticle Resolves Resolves a (saveArticle Resolves Resolves a s)))) a
       = count_list xs a + 2"
proof -
  assume p: "parse_saved (storage s) = Inr xs"
  let ?t = "saveArticle Resolves Resolves a s"
  have t: "storage ?t = Some (Json_array (xs @ [a]))"
    by (simp add: saveArticle_ok [OF p])
  then have pt: "parse_saved (storage ?t) = Inr (xs @ [a])"
    by (simp add: parse_saved_Json_array)
  let ?u = "saveArticle Resolves Resolves a ?t"
  have "storage ?u = Some (Json_array ((xs @ [a]) @ [a]))"
    by (simp add: saveArticle_ok [OF pt])
  then have pu: "parse_saved (storage ?u) = Inr (xs @ [a, a])"
    by (simp add: parse_saved_Json_array)
  show ?thesis
    by (simp add: getSavedArticles_ok [OF pt] getSavedArticles_ok [OF pu])
qed

theorem C6_save_then_load_witness:
  "savedArticles (getSavedArticles Resolves (saveArticle Resolves Resolves article_a
      (initial (Some (Json_array [article_a, article_b]))))) = [article_a, article_b, article_a]
   \<and> savedArticles (getSavedArticles Resolves (saveArticle Resolves Resolves article_a
      (saveArticle Resolves Resolves article_a (initial None)))) = [article_a, article_a]"
  using C6_save_then_load [of "initial (Some (Json_array [article_a, article_b]))"
      "[article_a, article_b]" article_a]
    C6_save_then_load [of "initial None" "[]" article_a]
  by (simp add: initial_def parse_saved_def JSON_parse_def)

text \<open>
  C10. When the read of a save rejects, or the stored string does not deserialize, the
  save only logs: no write is issued, the stored string is the same and no confirmation
  is shown. A confirmation is shown only when the read, the deserialization and the
  write have all succeeded, and then the stored string is the list with the article
  appended.
\<close>

theorem C10_saveArticle_failure:
  "(rd = Rejects \<or> parse_saved (storage s) = Inl e \<longrightarrow>
      saveArticle rd wr a s = s\<lparr>console := console s @ [''Error saving article'']\<rparr>
      \<and> written (saveArticle rd wr a s) = written s
      \<and> storage (saveArticle rd wr a s) = storage s
      \<and> alerts (saveArticle rd wr a s) = alerts s)
   \<and> (alerts (saveArticle rd wr a s) \<noteq> alerts s \<longrightarrow>
        rd = Resolves \<and> wr = Resolves
        \<and> (\<exists>xs. parse_saved (storage s) = Inr xs
              \<and> storage (saveArticle rd wr a s) = Some (JSON_stringify (xs @ [a]))
              \<and> alerts (saveArticle rd wr a s) = alerts s @ [''Saved!'']))"
  by (cases rd; cases wr; cases "parse_saved (storage s)")
    (simp_all add: saveArticle_def getItem_def setItem_def catch_save_def)

theorem C10_saveArticle_failure_witness:
  "saveArticle Resolves Resolves article_a (initial (Some Not_json))
     = (initial (Some Not_json))\<lparr>console := [''Error saving article'']\<rparr>
   \<and> saveArticle Rejects Resolves article_a (initial (Some (Json_array [article_b])))
     = (initial (Some (Json_array [article_b])))\<lparr>console := [''Error saving article'']\<rparr>
   \<and> alerts (saveArticle Resolves Rejects article_a (initial None)) = []
   \<and> alerts (saveArticle Resolves Resolves article_a (initial None)) = [''Saved!'']
   \<and> storage (saveArticle Resolves Resolves article_a (initial None)) = Some (Json_array [article_a])"
  using C10_saveArticle_failure [of Resolves "initial (Some Not_json)" SyntaxError Resolves article_a]
    C10_saveArticle_failure [of Rejects "initial (Some (Json_array [article_b]))" SyntaxError Resolves article_a]
    C10_saveArticle_failure [of Resolves "initial None" SyntaxError Resolves article_a]
  by (simp add: initial_def parse_saved_def JSON_parse_def saveArticle_def getItem_def setItem_def
      catch_save_def JSON_stringify_def)

section \<open>The view toggle\<close>

lemma step_empty_store:
  "storage s = None \<longrightarrow> savedArticles s = [] \<Longrightarrow>
   storage (step s ev) = None \<longrightarrow> savedArticles (step s ev) = []"
  by (cases ev)
    (auto simp add: fetchNews_call_def fetchNews_resume_def fetchNews_try_def handleScroll_def
      toggleView_def getSavedArticles_def saveArticle_def catch_save_def setItem_def getItem_def
      parse_saved_def Let_def split: sum.splits response.splits option.splits outcome.splits
      prod.splits if_splits)

lemma run_empty_store:
  "storage s = None \<longrightarrow> savedArticles s = [] \<Longrightarrow>
   storage (run s evs) = None \<longrightarrow> savedArticles (run s evs) = []"
proof (induction evs arbitrary: s)
  case Nil
  then show ?case by (simp add: run_def)
next
  case (Cons ev evs)
  from Cons.IH [OF step_empty_store [OF Cons.prems]] show ?case by (simp add: run_def)
qed

text \<open>
  C8. From the feed view, toggling to the saved view and back leaves the article list,
  the page, has-more and loading as they were, and the feed is rendered again; the way
  back changes the view flag and nothing else (no read of the store, no request).
  Toggling to the saved view with nothing stored renders the empty list: when the read
  resolves, when the saved list was empty, and in every state a session reaches.
\<close>

theorem C8_toggle_round_trip:
  "\<not> viewingSaved s \<Longrightarrow>
   viewingSaved (toggleView rd s)
   \<and> toggleView rd' (toggleView rd s) = (toggleView rd s)\<lparr>viewingSaved := False\<rparr>
   \<and> news (toggleView rd' (toggleView rd s)) = news s
   \<and> page (toggleView rd' (toggleView rd s)) = page s
   \<and> hasMore (toggleView rd' (toggleView rd s)) = hasMore s
   \<and> loading (toggleView rd' (toggleView rd s)) = loading s
   \<and> requested (toggleView rd' (toggleView rd s)) = requested s
   \<and> rendered (toggleView rd' (toggleView rd s)) = news s
   \<and> (storage s = None \<and> (rd = Resolves \<or> savedArticles s = [])
        \<longrightarrow> rendered (toggleView rd s) = [])
   \<and> (s = run (initial st) evs \<and> storage s = None \<longrightarrow> rendered (toggleView rd s) = [])"
proof -
  assume v: "\<not> viewingSaved s"
  have inv: "s = run (initial st) evs \<Longrightarrow> storage s = None \<Longrightarrow> savedArticles s = []"
    using run_empty_store [of "initial st" evs] by (simp add: initial_def)
  have a: "storage s = None \<Longrightarrow> savedArticles s = [] \<Longrightarrow> rendered (toggleView rd s) = []"
    using v by (cases rd) (simp_all add: toggleView_def rendered_def getSavedArticles_def
        getItem_def parse_saved_def)
  have b: "storage s = None \<Longrightarrow> rd = Resolves \<Longrightarrow> rendered (toggleView rd s) = []"
    using v by (simp add: toggleView_def rendered_def getSavedArticles_def
        getItem_def parse_saved_def)
  have c: "viewingSaved (toggleView rd s)"
    using v by (simp add: toggleView_def)
  have d: "toggleView rd' (toggleView rd s) = (toggleView rd s)\<lparr>viewingSaved := False\<rparr>"
    using c by (simp add: toggleView_def)
  have e: "news (toggleView rd s) = news s \<and> page (toggleView rd s) = page s
      \<and> hasMore (toggleView rd s) = hasMore s \<and> loading (toggleView rd s) = loading s
      \<and> requested (toggleView rd s) = requested s"
    using v by (simp add: toggleView_def getSavedArticles_def split: sum.splits)
  show ?thesis
    using a b c e inv by (auto simp add: d rendered_def)
qed

theorem C8_toggle_round_trip_witness:
  "rendered (toggleView Resolves (fetchNews 1 (Data (Some [article_a])) (initial None))) = []
   \<and> rendered (toggleView Resolves (toggleView Resolves
        (fetchNews 1 (Data (Some [article_a])) (initial None)))) = [article_a]"
proof -
  let ?s = "fetchNews 1 (Data (Some [article_a])) (initial None)"
  have s: "?s = (initial None)\<lparr>requested := [1], news := [article_a]\<rparr>"
    by (simp add: fetchNews_page initial_def)
  have v: "\<not> viewingSaved ?s" and n: "news ?s = [article_a]" and st: "storage ?s = None"
    unfolding s by (simp_all add: initial_def)
  from C8_toggle_round_trip [OF v, of Resolves Resolves None "[]"] st
  have "rendered (toggleView Resolves ?s) = []"
    and "rendered (toggleView Resolves (toggleView Resolves ?s)) = news ?s"
    by blast+
  with n show ?thesis by (simp only:)
qed

end
